theory Spec2Isabelle
  imports Main "HOL-Library.AList"
begin

section \<open>Gateway: the circuit breaker (gateway server, lines 36-59)\<close>

text \<open>
  The gateway keeps one breaker object per target service in the module-level table
  \<^verbatim>\<open>breakers\<close>. An entry is \<^verbatim>\<open>{ failures, openedAt }\<close>; \<^verbatim>\<open>openedAt\<close> is a
  millisecond timestamp or \<^verbatim>\<open>null\<close>. The table is a map from service name to entry, a
  missing key being JavaScript's \<^verbatim>\<open>undefined\<close>. The functions are only ever called
  with the three route targets, so inherited keys of \<^verbatim>\<open>Object.prototype\<close> play no role.
  Every reading of \<^verbatim>\<open>Date.now()\<close> is an explicit argument.
\<close>

record breaker =
  failures :: nat
  openedAt :: "int option"

type_synonym breakers = "string \<rightharpoonup> breaker"

definition MAX_FAILS :: nat where
  "MAX_FAILS = 3"

definition COOLDOWN_MS :: int where
  "COOLDOWN_MS = 30000"

definition closed_breaker :: breaker where
  \<comment> \<open>the literal \<^verbatim>\<open>{ failures: 0, openedAt: null }\<close>\<close>
  "closed_breaker = \<lparr>failures = 0, openedAt = None\<rparr>"

fun or_zero :: "int option \<Rightarrow> int" where
  \<comment> \<open>\<^verbatim>\<open>x || 0\<close> on a timestamp or null\<close>
  "or_zero None = 0"
| "or_zero (Some t) = (if t = 0 then 0 else t)"

fun or_null :: "int option \<Rightarrow> int option" where
  \<comment> \<open>\<^verbatim>\<open>x || null\<close> on a timestamp, null or undefined: the number 0 is falsy\<close>
  "or_null None = None"
| "or_null (Some t) = (if t = 0 then None else Some t)"

definition canPass :: "int \<Rightarrow> string \<Rightarrow> breakers \<Rightarrow> bool \<times> breakers" where
  "canPass now name bs =
     (case bs name of
        None \<Rightarrow> (True, bs)
      | Some b \<Rightarrow>
          if failures b < MAX_FAILS then (True, bs)
          else
            let elapsed = now - or_zero (openedAt b)
            in if elapsed > COOLDOWN_MS then (True, bs(name \<mapsto> closed_breaker))
               else (False, bs))"

definition reportSuccess :: "string \<Rightarrow> breakers \<Rightarrow> breakers" where
  "reportSuccess name bs = bs(name \<mapsto> closed_breaker)"

definition reportFailure :: "int \<Rightarrow> string \<Rightarrow> breakers \<Rightarrow> breakers" where
  "reportFailure now name bs =
     (let prev = (case bs name of None \<Rightarrow> 0 | Some b \<Rightarrow> failures b);
          fs = prev + 1
      in bs(name \<mapsto>
           \<lparr>failures = fs,
            openedAt = (if fs \<ge> MAX_FAILS then Some now
                        else or_null (case bs name of None \<Rightarrow> None | Some b \<Rightarrow> openedAt b))\<rparr>))"

abbreviation three_failures :: "int \<Rightarrow> int \<Rightarrow> int \<Rightarrow> string \<Rightarrow> breakers \<Rightarrow> breakers" where
  "three_failures t1 t2 t3 name bs \<equiv>
     reportFailure t3 name (reportFailure t2 name (reportFailure t1 name bs))"

section \<open>JSON values as the handlers inspect them\<close>

text \<open>
  Bodies of upstream responses are JSON values (axios hands over the raw text as a string
  when the body is not JSON). Numbers are restricted to integers: no property below depends
  on a fractional part. A property read that finds nothing is \<open>None\<close>, JavaScript's
  \<^verbatim>\<open>undefined\<close>.
\<close>

datatype json =
    JNull
  | JBool bool
  | JNum int
  | JStr string
  | JArr "json list"
  | JObj "(string \<times> json) list"

fun truthy :: "json \<Rightarrow> bool" where
  "truthy JNull = False"
| "truthy (JBool b) = b"
| "truthy (JNum n) = (n \<noteq> 0)"
| "truthy (JStr s) = (s \<noteq> [])"
| "truthy (JArr _) = True"
| "truthy (JObj _) = True"

fun property :: "string \<Rightarrow> json \<Rightarrow> json option" where
  \<comment> \<open>\<^verbatim>\<open>v.k\<close> for a key that is no built-in of strings or arrays, on a non-null value;
      a repeated key of a parsed object holds its last value\<close>
  "property k (JObj kvs) = map_of (rev kvs) k"
| "property k _ = None"

fun truthy_opt :: "json option \<Rightarrow> bool" where
  "truthy_opt None = False"
| "truthy_opt (Some v) = truthy v"

section \<open>Service registry (shared/serviceRegistry.js)\<close>

subsection \<open>Data\<close>

text \<open>
  An instance record as \<^verbatim>\<open>register\<close> creates it. \<^verbatim>\<open>fails\<close> is a counter that is only
  ever reset to 0 or incremented; the timestamps are readings of \<^verbatim>\<open>Date.now()\<close>.
  \<^verbatim>\<open>meta\<close> is an object of annotations, kept as an association list.
\<close>

type_synonym meta = "(string \<times> string) list"

record inst =
  url :: string
  healthy :: bool
  fails :: nat
  lastSeen :: int
  lastOk :: int
  meta :: meta

text \<open>
  \<^verbatim>\<open>memory\<close>: the table \<^verbatim>\<open>services\<close> is a JavaScript object, so its keys are distinct
  and are enumerated in insertion order; it is an association list here, read with
  \<^const>\<open>map_of\<close> and written with \<^const>\<open>AList.update\<close> (replace in place, or append).
  \<^verbatim>\<open>updatedAt\<close> holds the clock reading whose ISO rendering the source stores.
\<close>

record registry =
  services :: "(string \<times> inst list) list"
  updatedAt :: int

text \<open>
  The registry file: absent, holding a table, or holding JSON that the guard
  \<^verbatim>\<open>data && data.services\<close> of \<^verbatim>\<open>load\<close> rejects.
\<close>

datatype registry_file = NoFile | Table registry | Unusable

record store =
  memory :: registry
  disk :: registry_file

text \<open>
  Outcomes of the file system calls of one \<^verbatim>\<open>load\<close> or \<^verbatim>\<open>persist\<close>:
  \<^verbatim>\<open>fs.readJson\<close> and \<^verbatim>\<open>fs.outputJson\<close> may reject (\<^verbatim>\<open>fs.pathExists\<close> never does).
\<close>

record io =
  readJson_fails :: bool
  outputJson_fails :: bool

datatype error = StorageError | TypeError

datatype 'a result = Returned 'a | Threw error

definition CHECK_INTERVAL_MS :: int where
  "CHECK_INTERVAL_MS = 30000"

definition FAIL_OPEN_AFTER :: nat where
  "FAIL_OPEN_AFTER = 3"

definition INSTANCE_TTL_MS :: int where
  "INSTANCE_TTL_MS = 5 * 60000"

definition num_or_zero :: "int \<Rightarrow> int" where
  \<comment> \<open>\<^verbatim>\<open>x || 0\<close> on a number\<close>
  "num_or_zero x = (if x = 0 then 0 else x)"

subsection \<open>Persistence\<close>

definition persist :: "io \<Rightarrow> int \<Rightarrow> store \<Rightarrow> unit result \<times> store" where
  \<comment> \<open>\<^verbatim>\<open>updatedAt\<close> is stamped before the write, so it stays stamped when the write fails\<close>
  "persist w now st =
     (let m = (memory st)\<lparr>updatedAt := now\<rparr>
      in if outputJson_fails w then (Threw StorageError, st\<lparr>memory := m\<rparr>)
         else (Returned (), st\<lparr>memory := m, disk := Table m\<rparr>))"

definition load :: "io \<Rightarrow> int \<Rightarrow> store \<Rightarrow> store" where
  \<comment> \<open>every rejection inside is caught and logged: \<^verbatim>\<open>load\<close> itself never throws\<close>
  "load r now st =
     (case disk st of
        NoFile \<Rightarrow> snd (persist r now st)
      | Table t \<Rightarrow> if readJson_fails r then st else st\<lparr>memory := t\<rparr>
      | Unusable \<Rightarrow> st)"

subsection \<open>Keys and lists\<close>

definition is_space :: "char \<Rightarrow> bool" where
  \<comment> \<open>the ASCII white space and line terminators that \<^verbatim>\<open>trim\<close> strips\<close>
  "is_space c = (c \<in> set [CHR 0x09, CHR 0x0A, CHR 0x0B, CHR 0x0C, CHR 0x0D, CHR 0x20])"

definition trim :: "string \<Rightarrow> string" where
  "trim s = rev (dropWhile is_space (rev (dropWhile is_space s)))"

definition toLowerCase :: "string \<Rightarrow> string" where
  \<comment> \<open>on ASCII text\<close>
  "toLowerCase s =
     map (\<lambda>c. case map_of (zip ''ABCDEFGHIJKLMNOPQRSTUVWXYZ'' ''abcdefghijklmnopqrstuvwxyz'') c of
                 None \<Rightarrow> c | Some d \<Rightarrow> d) s"

definition key :: "string \<Rightarrow> string" where
  "key name = toLowerCase (trim name)"

abbreviation list_at :: "store \<Rightarrow> string \<Rightarrow> inst list option" where
  \<comment> \<open>\<^verbatim>\<open>memory.services[k]\<close>\<close>
  "list_at st k \<equiv> map_of (services (memory st)) k"

definition getList :: "string \<Rightarrow> store \<Rightarrow> inst list \<times> store" where
  \<comment> \<open>\<^verbatim>\<open>memory.services[k] ||= []\<close>: a missing list is created\<close>
  "getList name st =
     (let k = key name
      in case list_at st k of
           Some l \<Rightarrow> (l, st)
         | None \<Rightarrow>
             ([], st\<lparr>memory := (memory st)\<lparr>services := AList.update k [] (services (memory st))\<rparr>\<rparr>))"

definition setList :: "string \<Rightarrow> inst list \<Rightarrow> store \<Rightarrow> store" where
  \<comment> \<open>\<^verbatim>\<open>memory.services[key(name)] = l\<close>, and the in-place writes to the array held there\<close>
  "setList name l st =
     st\<lparr>memory := (memory st)\<lparr>services := AList.update (key name) l (services (memory st))\<rparr>\<rparr>"

fun findIndex :: "('a \<Rightarrow> bool) \<Rightarrow> 'a list \<Rightarrow> nat option" where
  \<comment> \<open>\<open>None\<close> is the source's \<open>-1\<close>\<close>
  "findIndex P [] = None"
| "findIndex P (x # xs) =
     (if P x then Some 0 else map_option Suc (findIndex P xs))"

definition spread :: "meta \<Rightarrow> meta \<Rightarrow> meta" where
  \<comment> \<open>\<^verbatim>\<open>{ ...a, ...b }\<close>\<close>
  "spread a b = fold (\<lambda>(k, v). AList.update k v) b a"

subsection \<open>The API\<close>

definition register ::
  "string \<Rightarrow> string \<Rightarrow> meta \<Rightarrow> io \<Rightarrow> int \<Rightarrow> int \<Rightarrow> io \<Rightarrow> int \<Rightarrow> store \<Rightarrow> bool result \<times> store" where
  \<comment> \<open>\<open>r\<close>, \<open>t0\<close>: file system outcome and clock of \<^verbatim>\<open>load\<close>; \<open>now\<close>: the
      \<^verbatim>\<open>Date.now()\<close> of the body; \<open>w\<close>, \<open>tp\<close>: those of the closing \<^verbatim>\<open>persist\<close>\<close>
  "register name u mt r t0 now w tp st =
     (let st1 = load r t0 st;
          (list, st2) = getList name st1;
          list' =
            (case findIndex (\<lambda>i. url i = u) list of
               Some idx \<Rightarrow>
                 list[idx := (list ! idx)
                        \<lparr>healthy := True, fails := 0, lastSeen := now, lastOk := now,
                         meta := spread (meta (list ! idx)) mt\<rparr>]
             | None \<Rightarrow>
                 list @ [\<lparr>url = u, healthy = True, fails = 0, lastSeen = now, lastOk = now,
                          meta = mt\<rparr>]);
          st3 = setList name list' st2
      in case persist w tp st3 of
           (Threw e, st4) \<Rightarrow> (Threw e, st4)
         | (Returned _, st4) \<Rightarrow> (Returned True, st4))"

definition deregister ::
  "string \<Rightarrow> string \<Rightarrow> io \<Rightarrow> int \<Rightarrow> io \<Rightarrow> int \<Rightarrow> store \<Rightarrow> bool result \<times> store" where
  "deregister name u r t0 w tp st =
     (let st1 = load r t0 st;
          (list, st2) = getList name st1;
          next = filter (\<lambda>i. url i \<noteq> u) list;
          st3 = setList name next st2
      in case persist w tp st3 of
           (Threw e, st4) \<Rightarrow> (Threw e, st4)
         | (Returned _, st4) \<Rightarrow> (Returned True, st4))"

definition lookup :: "string \<Rightarrow> io \<Rightarrow> int \<Rightarrow> store \<Rightarrow> string option \<times> store" where
  \<comment> \<open>\<open>None\<close> is the \<^verbatim>\<open>null\<close> returned when no instance is healthy;
      \<^verbatim>\<open>Array.prototype.sort\<close> is stable, as \<^const>\<open>sort_key\<close> is\<close>
  "lookup name r t0 st =
     (let st1 = load r t0 st;
          (all, st2) = getList name st1;
          list = filter healthy all
      in if length list = 0 then (None, st2)
         else (Some (url (hd (sort_key (\<lambda>i. num_or_zero (lastOk i)) list))), st2))"

definition dump :: "io \<Rightarrow> int \<Rightarrow> store \<Rightarrow> registry \<times> store" where
  "dump r t0 st = (let st1 = load r t0 st in (memory st1, st1))"

subsection \<open>Health checks\<close>

text \<open>
  One probe: what \<^verbatim>\<open>axios.get(url + '/health', {timeout: 3000})\<close> did, and the two
  readings of \<^verbatim>\<open>Date.now()\<close> taken on success. \<open>Failed\<close> covers every rejection of the
  call: transport error, timeout, non-2xx status.
\<close>

datatype http = Responded json | Failed

record probe =
  response :: http
  seen_at :: int
  ok_at :: int

definition body_ok :: "json \<Rightarrow> bool" where
  \<comment> \<open>\<^verbatim>\<open>data && (data.status === 'ok' || data.service)\<close>\<close>
  "body_ok data =
     (truthy data \<and> (property ''status'' data = Some (JStr ''ok'') \<or> truthy_opt (property ''service'' data)))"

definition probe_failure :: "inst \<Rightarrow> inst" where
  \<comment> \<open>the \<^verbatim>\<open>catch\<close> block of \<^verbatim>\<open>checkInstance\<close>\<close>
  "probe_failure i =
     (let n = fails i + 1
      in i\<lparr>fails := n, healthy := (if n \<ge> FAIL_OPEN_AFTER then False else healthy i)\<rparr>)"

definition checkInstance :: "probe \<Rightarrow> inst \<Rightarrow> inst" where
  "checkInstance p i =
     (case response p of
        Responded data \<Rightarrow>
          if body_ok data
          then i\<lparr>healthy := True, fails := 0, lastSeen := seen_at p, lastOk := ok_at p\<rparr>
          else probe_failure i
      | Failed \<Rightarrow> probe_failure i)"

definition cleanupAged :: "int \<Rightarrow> inst list \<Rightarrow> inst list" where
  "cleanupAged now list =
     filter (\<lambda>i. now - num_or_zero (lastSeen i) \<le> INSTANCE_TTL_MS) list"

text \<open>
  One run of the interval callback. The environment gives, for the \<open>k\<close>-th instance of
  the list reached under name \<open>n\<close>, the outcome of its probe, and for each name the clock
  at its clean-up. The body of the loop cannot throw; a rejection of the closing
  \<^verbatim>\<open>persist\<close> is caught and logged.

  The callback is not atomic: it awaits every probe, and while it waits, another operation
  of the same process may run. The environment names, for each probe, the operation that
  runs during its wait: none, a \<^verbatim>\<open>lookup\<close> or a \<^verbatim>\<open>dump\<close>. Both begin with \<^verbatim>\<open>load\<close>,
  which replaces the object \<^verbatim>\<open>memory\<close> when it reads a table from the file. The callback
  goes on with the array \<^verbatim>\<open>list\<close> it took before; its writes to the instances reach
  \<^verbatim>\<open>memory\<close> only as long as \<^verbatim>\<open>memory\<close> still shares that array, and the assignment
  after the loop goes to whatever \<^verbatim>\<open>memory\<close> is by then. Calls of \<^verbatim>\<open>register\<close> and
  \<^verbatim>\<open>deregister\<close> during a wait, which write into a shared array in place and to the file,
  are left out, and so are operations during the waits of \<^verbatim>\<open>load\<close> and \<^verbatim>\<open>persist\<close>.
\<close>

datatype interleaved = Nothing | Lookup string io int | Dump io int

definition load_replaces :: "io \<Rightarrow> store \<Rightarrow> bool" where
  \<comment> \<open>\<^verbatim>\<open>load\<close> reaches \<^verbatim>\<open>memory = data\<close>\<close>
  "load_replaces r st = (case disk st of Table t \<Rightarrow> \<not> readJson_fails r | _ \<Rightarrow> False)"

definition interleave :: "interleaved \<Rightarrow> store \<Rightarrow> store" where
  "interleave x st =
     (case x of
        Nothing \<Rightarrow> st
      | Lookup name r t0 \<Rightarrow> snd (lookup name r t0 st)
      | Dump r t0 \<Rightarrow> snd (dump r t0 st))"

definition replaces_memory :: "interleaved \<Rightarrow> store \<Rightarrow> bool" where
  "replaces_memory x st =
     (case x of
        Nothing \<Rightarrow> False
      | Lookup name r t0 \<Rightarrow> load_replaces r st
      | Dump r t0 \<Rightarrow> load_replaces r st)"

record cycle_env =
  load_io :: io
  load_clock :: int
  probe_of :: "string \<Rightarrow> nat \<Rightarrow> probe"
  during_probe :: "string \<Rightarrow> nat \<Rightarrow> interleaved"
  cleanup_clock :: "string \<Rightarrow> int"
  persist_io :: io
  persist_clock :: int

text \<open>
  The state of the inner loop: the array the callback holds, whether \<^verbatim>\<open>memory\<close> still
  shares it, and the store.
\<close>

record probing =
  held :: "inst list"
  shared :: bool
  current :: store

definition probe_step :: "cycle_env \<Rightarrow> string \<Rightarrow> nat \<Rightarrow> probing \<Rightarrow> probing" where
  \<comment> \<open>\<^verbatim>\<open>await checkInstance(n, inst)\<close> for the \<open>k\<close>-th instance: the wait, then the
      write to the instance\<close>
  "probe_step env n k s =
     (let x = during_probe env n k;
          sh = (shared s \<and> \<not> replaces_memory x (current s));
          st = interleave x (current s);
          l = (held s)[k := checkInstance (probe_of env n k) (held s ! k)]
      in \<lparr>held = l, shared = sh, current = (if sh then setList n l st else st)\<rparr>)"

definition check_service :: "cycle_env \<Rightarrow> string \<Rightarrow> store \<Rightarrow> store" where
  "check_service env n st =
     (let (list, st1) = getList n st;
          s = fold (probe_step env n) [0..<length list]
                \<lparr>held = list, shared = True, current = st1\<rparr>
      in setList n (cleanupAged (cleanup_clock env n) (held s)) (current s))"

definition health_cycle :: "cycle_env \<Rightarrow> store \<Rightarrow> store" where
  "health_cycle env st =
     (let st1 = load (load_io env) (load_clock env) st;
          names = map fst (services (memory st1));
          st2 = fold (check_service env) names st1
      in snd (persist (persist_io env) (persist_clock env) st2))"

definition absent :: "string \<Rightarrow> string \<Rightarrow> store \<Rightarrow> bool" where
  \<comment> \<open>the list of service \<open>k\<close> exists and holds no instance with URL \<open>u\<close>\<close>
  "absent u k st = (case list_at st k of None \<Rightarrow> False | Some ys \<Rightarrow> u \<notin> url ` set ys)"

definition probe_succeeds :: "probe \<Rightarrow> bool" where
  \<comment> \<open>the probe reaches the early \<^verbatim>\<open>return\<close> of \<^verbatim>\<open>checkInstance\<close>\<close>
  "probe_succeeds p = (case response p of Responded data \<Rightarrow> body_ok data | Failed \<Rightarrow> False)"

abbreviation instances_of :: "string \<Rightarrow> io \<Rightarrow> int \<Rightarrow> store \<Rightarrow> inst list" where
  \<comment> \<open>the list that an operation on \<open>name\<close> works on, once it has reloaded the table\<close>
  "instances_of name r t0 st \<equiv> fst (getList name (load r t0 st))"

subsection \<open>Sample data\<close>

abbreviation no_faults :: io where
  "no_faults \<equiv> \<lparr>readJson_fails = False, outputJson_fails = False\<rparr>"

definition sample_store :: store where
  "sample_store =
     \<lparr>memory = \<lparr>services = [], updatedAt = 0\<rparr>,
      disk = Table
        \<lparr>services =
           [(''list-service'',
             [\<lparr>url = ''http://a:3002'', healthy = False, fails = 3, lastSeen = 10, lastOk = 10,
               meta = []\<rparr>,
              \<lparr>url = ''http://b:3002'', healthy = True, fails = 0, lastSeen = 70, lastOk = 70,
               meta = []\<rparr>,
              \<lparr>url = ''http://c:3002'', healthy = True, fails = 1, lastSeen = 40, lastOk = 40,
               meta = []\<rparr>,
              \<lparr>url = ''http://d:3002'', healthy = True, fails = 0, lastSeen = 40, lastOk = 40,
               meta = []\<rparr>])],
         updatedAt = 70\<rparr>\<rparr>"



section \<open>Gateway: discovery and proxying (gateway server, lines 20-34 and 61-119)\<close>

definition FALLBACKS :: "string \<rightharpoonup> string" where
  "FALLBACKS =
     map_of [(''user-service'', ''http://localhost:3001''),
             (''list-service'', ''http://localhost:3002''),
             (''item-service'', ''http://localhost:3003'')]"

definition gateway_lookup :: "string \<Rightarrow> io \<Rightarrow> int \<Rightarrow> store \<Rightarrow> string option \<times> store" where
  \<comment> \<open>the gateway's own \<^verbatim>\<open>lookup\<close>: \<^verbatim>\<open>url || FALLBACKS[name]\<close>. Its \<^verbatim>\<open>catch\<close> branch
      yields \<^verbatim>\<open>FALLBACKS[name]\<close> as well; the registry's \<^verbatim>\<open>lookup\<close> does not reject.
      \<open>None\<close> is \<^verbatim>\<open>undefined\<close>, for a name without fallback.\<close>
  "gateway_lookup name r t0 st =
     (case lookup name r t0 st of
        (None, st') \<Rightarrow> (FALLBACKS name, st')
      | (Some u, st') \<Rightarrow> (if u = [] then FALLBACKS name else Some u, st'))"

definition extractBearer :: "string option \<Rightarrow> string option" where
  \<comment> \<open>the argument is the \<^verbatim>\<open>Authorization\<close> header, if any\<close>
  "extractBearer auth =
     (let h = (case auth of None \<Rightarrow> [] | Some a \<Rightarrow> a)
      in if take 7 h = ''Bearer '' then Some (drop 7 h) else None)"

fun present :: "string option \<Rightarrow> bool" where
  \<comment> \<open>truthiness of a string or null\<close>
  "present None = False"
| "present (Some s) = (s \<noteq> [])"

text \<open>
  \<^verbatim>\<open>makeProxy\<close> resolves the address once for the \<^verbatim>\<open>target\<close> option and installs a
  \<^verbatim>\<open>router\<close> that resolves it again on every request and returns the object
  \<^verbatim>\<open>{ target: url }\<close>. Forwarding is the work of the proxy middleware, a library: what it
  does with these two values is an input. Either the upstream answers (with some status;
  \<^verbatim>\<open>onProxyRes\<close> runs), or the proxy reports an error (\<^verbatim>\<open>onError\<close> runs), or the proxy
  call throws, in which case the middleware hands the exception on, the framework answers
  500, and neither callback runs.
\<close>

datatype routed = RouterObject "string option"  \<comment> \<open>the object \<^verbatim>\<open>{ target: v }\<close>\<close>

datatype proxying = Answered nat | Errored | Thrown

datatype proxy_reply =
    CircuitOpen  \<comment> \<open>503 from \<^verbatim>\<open>guard\<close>\<close>
  | Passed nat  \<comment> \<open>the upstream's own response\<close>
  | BadGateway  \<comment> \<open>502 from \<^verbatim>\<open>onError\<close>\<close>
  | ServerError  \<comment> \<open>500 from the framework's error handler\<close>

record gateway =
  gw_breakers :: breakers
  gw_store :: store

record proxy_env =
  guard_clock :: int
  target_io :: io
  target_clock :: int
  router_io :: io
  router_clock :: int
  proxy :: "string option \<Rightarrow> routed \<Rightarrow> proxying"
  failure_clock :: int

definition makeProxy :: "string \<Rightarrow> io \<Rightarrow> int \<Rightarrow> store \<Rightarrow> string option \<times> store" where
  \<comment> \<open>the \<^verbatim>\<open>target\<close> option of the middleware it builds\<close>
  "makeProxy targetName r t0 st = gateway_lookup targetName r t0 st"

definition router :: "string \<Rightarrow> io \<Rightarrow> int \<Rightarrow> store \<Rightarrow> routed \<times> store" where
  \<comment> \<open>\<^verbatim>\<open>async () => ({ target: await lookup(targetName) })\<close>\<close>
  "router targetName r t0 st =
     (case gateway_lookup targetName r t0 st of (u, st') \<Rightarrow> (RouterObject u, st'))"

definition route :: "string \<Rightarrow> proxy_env \<Rightarrow> gateway \<Rightarrow> proxy_reply \<times> gateway" where
  \<comment> \<open>one request through \<^verbatim>\<open>guard\<close>, \<^verbatim>\<open>makeProxy\<close> and the proxy it builds\<close>
  "route targetName env g =
     (case canPass (guard_clock env) targetName (gw_breakers g) of
        (False, bs) \<Rightarrow> (CircuitOpen, g\<lparr>gw_breakers := bs\<rparr>)
      | (True, bs) \<Rightarrow>
          (let (target, s1) = makeProxy targetName (target_io env) (target_clock env) (gw_store g);
               (routed, s2) = router targetName (router_io env) (router_clock env) s1
           in (case proxy env target routed of
                 Answered code \<Rightarrow>
                   (Passed code, \<lparr>gw_breakers = reportSuccess targetName bs, gw_store = s2\<rparr>)
               | Errored \<Rightarrow>
                   (BadGateway,
                    \<lparr>gw_breakers = reportFailure (failure_clock env) targetName bs,
                     gw_store = s2\<rparr>)
               | Thrown \<Rightarrow> (ServerError, \<lparr>gw_breakers = bs, gw_store = s2\<rparr>))))"

section \<open>Gateway: aggregation (gateway server, lines 121-190)\<close>

subsection \<open>Dashboard\<close>






datatype 'a call = Resolved 'a | Rejected










subsection \<open>Search\<close>

text \<open>
  \<^verbatim>\<open>Promise.allSettled\<close> turns each promise into \<^verbatim>\<open>{status: 'fulfilled', value}\<close> or
  \<^verbatim>\<open>{status: 'rejected', reason}\<close>. The values are objects: the response object of axios,
  of which the handler reads \<^verbatim>\<open>data\<close>, or the literal the handler passes to
  \<^verbatim>\<open>Promise.resolve\<close> when there is no token.
\<close>

datatype settled = Fulfilled json | NotFulfilled

definition axios_response :: "json \<Rightarrow> json" where
  "axios_response body = JObj [(''data'', body), (''status'', JNum 200)]"

definition allSettled1 :: "json call \<Rightarrow> settled" where
  "allSettled1 c = (case c of Resolved v \<Rightarrow> Fulfilled v | Rejected \<Rightarrow> NotFulfilled)"

definition no_token_value :: json where
  \<comment> \<open>\<^verbatim>\<open>{ status: 'fulfilled', value: { data: [] } }\<close>\<close>
  "no_token_value = JObj [(''status'', JStr ''fulfilled''), (''value'', JObj [(''data'', JArr [])])]"

definition js_includes :: "string \<Rightarrow> string \<Rightarrow> bool" where
  "js_includes s t = list_ex (\<lambda>k. take (length t) (drop k s) = t) [0..<Suc (length s)]"

definition name_matches :: "string \<Rightarrow> json \<Rightarrow> bool result" where
  \<comment> \<open>\<^verbatim>\<open>l => (l.name || '').toLowerCase().includes(q.toLowerCase())\<close>\<close>
  "name_matches q l =
     (if l = JNull then Threw TypeError
      else case property ''name'' l of
             None \<Rightarrow> Returned (js_includes [] (toLowerCase q))
           | Some v \<Rightarrow>
               if \<not> truthy v then Returned (js_includes [] (toLowerCase q))
               else (case v of
                       JStr s \<Rightarrow> Returned (js_includes (toLowerCase s) (toLowerCase q))
                     | _ \<Rightarrow> Threw TypeError))"

fun filter_by :: "(json \<Rightarrow> bool result) \<Rightarrow> json list \<Rightarrow> json list result" where
  "filter_by f [] = Returned []"
| "filter_by f (x # xs) =
     (case f x of
        Threw e \<Rightarrow> Threw e
      | Returned b \<Rightarrow>
          (case filter_by f xs of
             Threw e \<Rightarrow> Threw e
           | Returned ys \<Rightarrow> Returned (if b then x # ys else ys)))"

definition js_filter :: "(json \<Rightarrow> bool result) \<Rightarrow> json option \<Rightarrow> json list result" where
  \<comment> \<open>\<^verbatim>\<open>v.filter(f)\<close>: only an array has the method; on \<^verbatim>\<open>undefined\<close> the read throws\<close>
  "js_filter f v = (case v of Some (JArr xs) \<Rightarrow> filter_by f xs | _ \<Rightarrow> Threw TypeError)"

record search_json =
  found_items :: "json option"
  found_lists :: "json list"

record search_env =
  s_list_io :: io
  s_list_clock :: int
  s_item_io :: io
  s_item_clock :: int
  get_search :: "string option \<Rightarrow> string \<Rightarrow> json call"
  get_lists_json :: "string option \<Rightarrow> string \<Rightarrow> json call"

definition search ::
  "string option \<Rightarrow> string option \<Rightarrow> search_env \<Rightarrow> store \<Rightarrow> search_json result \<times> store" where
  \<comment> \<open>\<open>qraw\<close> is \<^verbatim>\<open>req.query.q\<close>. A \<open>Threw\<close> result is the rejection of the async
      handler: no response is written.\<close>
  "search qraw auth env st =
     (let q = trim (case qraw of None \<Rightarrow> [] | Some s \<Rightarrow> s)
      in if q = [] then (Returned \<lparr>found_items = Some (JArr []), found_lists = []\<rparr>, st)
         else
           let token = extractBearer auth;
               (listBase, s1) = gateway_lookup ''list-service'' (s_list_io env) (s_list_clock env) st;
               (itemBase, s2) = gateway_lookup ''item-service'' (s_item_io env) (s_item_clock env) s1;
               itemsRes = allSettled1 (map_call axios_response (get_search env itemBase q));
               listsRes =
                 allSettled1
                   (if present token
                    then map_call axios_response (get_lists_json env listBase (the token))
                    else Resolved no_token_value);
               its = (case itemsRes of Fulfilled v \<Rightarrow> property ''data'' v
                                      | NotFulfilled \<Rightarrow> Some (JArr []));
               found = (case listsRes of Fulfilled v \<Rightarrow> property ''data'' v
                                        | NotFulfilled \<Rightarrow> Some (JArr []))
           in case js_filter (name_matches q) found of
                Threw e \<Rightarrow> (Threw e, s2)
              | Returned ls \<Rightarrow> (Returned \<lparr>found_items = its, found_lists = ls\<rparr>, s2))"

subsection \<open>Sample requests\<close>

definition sample_proxy_env :: proxy_env where
  \<comment> \<open>a proxy whose call throws on the routed object, before any connection is opened\<close>
  "sample_proxy_env =
     \<lparr>guard_clock = 1000, target_io = no_faults, target_clock = 1000,
      router_io = no_faults, router_clock = 1001,
      proxy = (\<lambda>target routed. Thrown),
      failure_clock = 1002\<rparr>"

definition sample_gateway :: gateway where
  "sample_gateway = \<lparr>gw_breakers = Map.empty, gw_store = sample_store\<rparr>"





definition sample_search_env :: search_env where
  "sample_search_env =
     \<lparr>s_list_io = no_faults, s_list_clock = 1000, s_item_io = no_faults, s_item_clock = 1001,
      get_search = (\<lambda>_ _. Resolved (JArr [JObj [(''name'', JStr ''Milk'')]])),
      get_lists_json = (\<lambda>_ _. Resolved (JArr [JObj [(''name'', JStr ''Milk run'')],
                                                JObj [(''name'', JStr ''Hardware'')]]))\<rparr>"

subsection \<open>Sample health cycles\<close>

definition ok_probe :: "int \<Rightarrow> probe" where
  "ok_probe t = \<lparr>response = Responded (JObj [(''status'', JStr ''ok'')]), seen_at = t, ok_at = t\<rparr>"

definition timeout_probe :: "int \<Rightarrow> probe" where
  "timeout_probe t = \<lparr>response = Failed, seen_at = t, ok_at = t\<rparr>"

definition sample_cycle_env ::
  "(nat \<Rightarrow> probe) \<Rightarrow> (string \<Rightarrow> nat \<Rightarrow> interleaved) \<Rightarrow> bool \<Rightarrow> cycle_env" where
  \<comment> \<open>a cycle at about 1000 s, when every instance of the sample tables is long stale\<close>
  "sample_cycle_env probes during write_fails =
     \<lparr>load_io = no_faults, load_clock = 1000000,
      probe_of = (\<lambda>n. probes), during_probe = during, cleanup_clock = (\<lambda>n. 1000050),
      persist_io = \<lparr>readJson_fails = False, outputJson_fails = write_fails\<rparr>,
      persist_clock = 1000060\<rparr>"

definition two_service_store :: store where
  \<comment> \<open>the file and the memory hold the same table, with item-service registered first\<close>
  "two_service_store =
     (let t = \<lparr>services =
                 [(''item-service'',
                   [\<lparr>url = ''http://x:3003'', healthy = True, fails = 0, lastSeen = 10,
                     lastOk = 10, meta = []\<rparr>]),
                  (''list-service'',
                   [\<lparr>url = ''http://a:3002'', healthy = True, fails = 0, lastSeen = 20,
                     lastOk = 20, meta = []\<rparr>])],
               updatedAt = 20\<rparr>
      in \<lparr>memory = t, disk = Table t\<rparr>)"

definition lookup_during_list_probe :: "string \<Rightarrow> nat \<Rightarrow> interleaved" where
  \<comment> \<open>a request resolves user-service while the first instance of list-service is probed\<close>
  "lookup_during_list_probe n k =
     (if n = ''list-service'' \<and> k = 0 then Lookup ''user-service'' no_faults 1000045
      else Nothing)"

section \<open>Circuit breaker: properties\<close>

lemma reportFailure_entry:
  "reportFailure now name bs name =
     Some \<lparr>failures = (case bs name of None \<Rightarrow> 0 | Some b \<Rightarrow> failures b) + 1,
           openedAt = (if (case bs name of None \<Rightarrow> 0 | Some b \<Rightarrow> failures b) + 1 \<ge> MAX_FAILS
                       then Some now
                       else or_null (case bs name of None \<Rightarrow> None | Some b \<Rightarrow> openedAt b))\<rparr>"
  by (simp add: reportFailure_def Let_def)

lemma three_failures_entry:
  assumes "bs name = None"
  shows "three_failures t1 t2 t3 name bs name = Some \<lparr>failures = 3, openedAt = Some t3\<rparr>"
  using assms by (simp add: reportFailure_entry MAX_FAILS_def)

text \<open>
  C1. Starting from a table with no entry for the service, three consecutive
  \<^verbatim>\<open>reportFailure\<close> calls (at times \<open>t1\<close>, \<open>t2\<close>, \<open>t3\<close>) trip the breaker at \<open>t3\<close>:
  \<^verbatim>\<open>canPass\<close> at the moment of the trip is false and leaves the table alone; at any later
  reading \<open>t\<close> of the clock it is true exactly when more than the 30 s cooldown has
  elapsed since the trip, and then the entry is reset to \<^verbatim>\<open>{failures: 0, openedAt: null}\<close>
  by the check itself; and after a \<^verbatim>\<open>reportSuccess\<close> it is true at once, whatever the
  clock says.
\<close>

theorem breaker_trips_after_three_failures:
  assumes "bs name = None"
  shows "canPass t3 name (three_failures t1 t2 t3 name bs)
           = (False, three_failures t1 t2 t3 name bs)
       \<and> canPass t name (three_failures t1 t2 t3 name bs)
           = (if t - t3 > 30000
              then (True, (three_failures t1 t2 t3 name bs)
                            (name \<mapsto> \<lparr>failures = 0, openedAt = None\<rparr>))
              else (False, three_failures t1 t2 t3 name bs))
       \<and> fst (canPass t name (reportSuccess name (three_failures t1 t2 t3 name bs))) = True"
proof -
  have e: "three_failures t1 t2 t3 name bs name = Some \<lparr>failures = 3, openedAt = Some t3\<rparr>"
    using assms by (rule three_failures_entry)
  have 1: "canPass t3 name (three_failures t1 t2 t3 name bs)
             = (False, three_failures t1 t2 t3 name bs)"
    by (simp add: canPass_def e MAX_FAILS_def COOLDOWN_MS_def)
  have 2: "canPass t name (three_failures t1 t2 t3 name bs)
           = (if t - t3 > 30000
              then (True, (three_failures t1 t2 t3 name bs)
                            (name \<mapsto> \<lparr>failures = 0, openedAt = None\<rparr>))
              else (False, three_failures t1 t2 t3 name bs))"
    by (simp add: canPass_def e MAX_FAILS_def COOLDOWN_MS_def closed_breaker_def)
  have 3: "fst (canPass t name (reportSuccess name (three_failures t1 t2 t3 name bs))) = True"
    by (simp add: canPass_def reportSuccess_def closed_breaker_def MAX_FAILS_def)
  from 1 2 3 show ?thesis by blast
qed

theorem breaker_trips_after_three_failures_witness:
  "canPass 3000 ''item-service'' (three_failures 1000 2000 3000 ''item-service'' Map.empty)
     = (False, three_failures 1000 2000 3000 ''item-service'' Map.empty)
   \<and> fst (canPass 33000 ''item-service''
              (three_failures 1000 2000 3000 ''item-service'' Map.empty)) = False
   \<and> canPass 33001 ''item-service'' (three_failures 1000 2000 3000 ''item-service'' Map.empty)
     = (True, (three_failures 1000 2000 3000 ''item-service'' Map.empty)
                (''item-service'' \<mapsto> \<lparr>failures = 0, openedAt = None\<rparr>))
   \<and> fst (canPass 3000 ''item-service''
         (reportSuccess ''item-service''
            (three_failures 1000 2000 3000 ''item-service'' Map.empty))) = True"
  using breaker_trips_after_three_failures
          [where bs = Map.empty and name = "''item-service''"
             and ?t1.0 = 1000 and ?t2.0 = 2000 and ?t3.0 = 3000 and t = 33000]
        breaker_trips_after_three_failures
          [where bs = Map.empty and name = "''item-service''"
             and ?t1.0 = 1000 and ?t2.0 = 2000 and ?t3.0 = 3000 and t = 33001]
        breaker_trips_after_three_failures
          [where bs = Map.empty and name = "''item-service''"
             and ?t1.0 = 1000 and ?t2.0 = 2000 and ?t3.0 = 3000 and t = 3000]
  by simp

text \<open>
  C2 (as stated, refuted). The claim says that a \<^verbatim>\<open>reportFailure\<close> arriving while the
  count is already at or above 3 leaves \<^verbatim>\<open>openedAt\<close> unchanged. The guard in the source
  is \<^verbatim>\<open>failures >= MAX_FAILS\<close>, not equality: after a trip at 3000 ms a fourth failure
  at 20000 ms moves \<^verbatim>\<open>openedAt\<close> to 20000, and the gate is still shut at 40000 ms,
  37 s after the first trip.
\<close>

theorem reportFailure_openedAt_counterexample:
  "three_failures 1000 2000 3000 ''item-service'' Map.empty ''item-service''
     = Some \<lparr>failures = 3, openedAt = Some 3000\<rparr>
   \<and> reportFailure 20000 ''item-service''
        (three_failures 1000 2000 3000 ''item-service'' Map.empty) ''item-service''
     = Some \<lparr>failures = 4, openedAt = Some 20000\<rparr>
   \<and> fst (canPass 40000 ''item-service''
         (reportFailure 20000 ''item-service''
            (three_failures 1000 2000 3000 ''item-service'' Map.empty))) = False"
  by (simp add: reportFailure_entry canPass_def MAX_FAILS_def COOLDOWN_MS_def)

text \<open>
  C2 (amended). \<^verbatim>\<open>reportFailure\<close> increments the failure count and sets
  \<^verbatim>\<open>openedAt\<close> to the current time whenever the incremented count is at or above 3:
  on the call that reaches the threshold and on every later call while the count stays
  there. Below the threshold \<^verbatim>\<open>openedAt\<close> keeps its previous value (null when there was
  none). Hence, once the count has reached 2, the gate after a further failure at \<open>now\<close>
  opens again exactly when more than 30 s have passed since \<open>now\<close>: the cooldown is
  measured from the last reported failure.
\<close>

theorem reportFailure_sets_openedAt_from_threshold_on:
  "(bs name = None \<longrightarrow>
      reportFailure now name bs name = Some \<lparr>failures = 1, openedAt = None\<rparr>)
   \<and> (\<forall>b. bs name = Some b \<longrightarrow>
        reportFailure now name bs name
          = Some \<lparr>failures = failures b + 1,
                  openedAt = (if 3 \<le> failures b + 1 then Some now else or_null (openedAt b))\<rparr>
        \<and> (2 \<le> failures b \<longrightarrow>
             fst (canPass t name (reportFailure now name bs)) = (t - now > 30000)))"
proof -
  have none: "bs name = None \<longrightarrow>
      reportFailure now name bs name = Some \<lparr>failures = 1, openedAt = None\<rparr>"
    by (simp add: reportFailure_entry MAX_FAILS_def)
  have some: "reportFailure now name bs name
          = Some \<lparr>failures = failures b + 1,
                  openedAt = (if 3 \<le> failures b + 1 then Some now else or_null (openedAt b))\<rparr>"
    if "bs name = Some b" for b
    using that by (simp add: reportFailure_entry MAX_FAILS_def)
  have gate: "fst (canPass t name (reportFailure now name bs)) = (t - now > 30000)"
    if "bs name = Some b" "2 \<le> failures b" for b
    using that by (simp add: canPass_def some MAX_FAILS_def COOLDOWN_MS_def)
  from none some gate show ?thesis by blast
qed

theorem reportFailure_sets_openedAt_from_threshold_on_witness:
  "reportFailure 500 ''user-service'' Map.empty ''user-service''
     = Some \<lparr>failures = 1, openedAt = None\<rparr>
   \<and> reportFailure 20000 ''user-service''
         [''user-service'' \<mapsto> \<lparr>failures = 3, openedAt = Some 3000\<rparr>] ''user-service''
     = Some \<lparr>failures = 4, openedAt = Some 20000\<rparr>
   \<and> fst (canPass 40000 ''user-service''
         (reportFailure 20000 ''user-service''
            [''user-service'' \<mapsto> \<lparr>failures = 3, openedAt = Some 3000\<rparr>])) = False"
  using reportFailure_sets_openedAt_from_threshold_on
          [where bs = Map.empty and name = "''user-service''" and now = 500]
        reportFailure_sets_openedAt_from_threshold_on
          [where bs = "[''user-service'' \<mapsto> \<lparr>failures = 3, openedAt = Some 3000\<rparr>]"
             and name = "''user-service''" and now = 20000 and t = 40000]
  by simp

section \<open>Registry: selection by \<^verbatim>\<open>lookup\<close>\<close>

lemma num_or_zero_id: "num_or_zero x = x"
  by (simp add: num_or_zero_def)

lemma hd_insort_key:
  "hd (insort_key f x zs) = (if zs = [] \<or> f x \<le> f (hd zs) then x else hd zs)"
  by (cases zs) auto

lemma hd_sort_key_first_min:
  "ys \<noteq> [] \<Longrightarrow>
     \<exists>pre x post. ys = pre @ x # post \<and> hd (sort_key f ys) = x
        \<and> (\<forall>y\<in>set pre. f x < f y) \<and> (\<forall>y\<in>set post. f x \<le> f y)"
proof (induction ys)
  case Nil
  then show ?case by simp
next
  case (Cons y ys)
  show ?case
  proof (cases "ys = []")
    case True
    then have "y # ys = [] @ y # [] \<and> hd (sort_key f (y # ys)) = y" by simp
    then show ?thesis by (metis empty_iff list.set(1))
  next
    case False
    then obtain pre x post where d: "ys = pre @ x # post" "hd (sort_key f ys) = x"
      "\<forall>z\<in>set pre. f x < f z" "\<forall>z\<in>set post. f x \<le> f z"
      using Cons.IH by blast
    have ne: "sort_key f ys \<noteq> []"
      using False by (metis length_sort list.size(3) length_0_conv)
    have h: "hd (sort_key f (y # ys)) = (if f y \<le> f x then y else x)"
      using ne d(2) by (simp add: hd_insort_key)
    show ?thesis
    proof (cases "f y \<le> f x")
      case True
      have "\<forall>z\<in>set ys. f y \<le> f z"
        using True d by (auto intro: order_trans less_imp_le)
      with h True have "y # ys = [] @ y # ys \<and> hd (sort_key f (y # ys)) = y
          \<and> (\<forall>z\<in>set []. f y < f z) \<and> (\<forall>z\<in>set ys. f y \<le> f z)" by simp
      then show ?thesis by blast
    next
      case False
      with h d have "y # ys = (y # pre) @ x # post \<and> hd (sort_key f (y # ys)) = x
          \<and> (\<forall>z\<in>set (y # pre). f x < f z) \<and> (\<forall>z\<in>set post. f x \<le> f z)" by auto
      then show ?thesis by blast
    qed
  qed
qed

lemma filter_eq_append_Cons:
  "filter P xs = pre @ x # post \<Longrightarrow>
     \<exists>pre' post'. xs = pre' @ x # post' \<and> filter P pre' = pre \<and> filter P post' = post \<and> P x"
proof (induction xs arbitrary: pre)
  case Nil
  then show ?case by simp
next
  case (Cons a xs)
  show ?case
  proof (cases "P a")
    case False
    with Cons.prems have "filter P xs = pre @ x # post" by simp
    from Cons.IH[OF this] obtain pre' post' where
      "xs = pre' @ x # post'" "filter P pre' = pre" "filter P post' = post" "P x" by blast
    with False have "a # xs = (a # pre') @ x # post' \<and> filter P (a # pre') = pre
        \<and> filter P post' = post \<and> P x" by simp
    then show ?thesis by blast
  next
    case True
    show ?thesis
    proof (cases "pre = []")
      case True
      with \<open>P a\<close> Cons.prems have "a = x" "filter P xs = post" by auto
      with \<open>P a\<close> have "a # xs = [] @ x # xs \<and> filter P [] = [] \<and> filter P xs = post \<and> P x"
        by simp
      with True show ?thesis by blast
    next
      case False
      then obtain b pre2 where p: "pre = b # pre2" by (cases pre) auto
      with \<open>P a\<close> Cons.prems have e: "a = b" "filter P xs = pre2 @ x # post" by auto
      from Cons.IH[OF e(2)] obtain pre' post' where
        "xs = pre' @ x # post'" "filter P pre' = pre2" "filter P post' = post" "P x" by blast
      with \<open>P a\<close> e p have "a # xs = (a # pre') @ x # post' \<and> filter P (a # pre') = pre
        \<and> filter P post' = post \<and> P x" by simp
      then show ?thesis by blast
    qed
  qed
qed

lemma lookup_value:
  "fst (lookup name r t0 st) =
     (if filter healthy (instances_of name r t0 st) = [] then None
      else Some (url (hd (sort_key lastOk (filter healthy (instances_of name r t0 st))))))"
  by (simp add: lookup_def Let_def split_def num_or_zero_id)

text \<open>
  C6. For every service name, \<^verbatim>\<open>lookup\<close> returns \<^verbatim>\<open>null\<close> when the service's list
  (as reloaded) has no healthy instance; otherwise it returns the URL of one healthy
  instance \<open>x\<close> of the list, whose \<^verbatim>\<open>lastOk\<close> is strictly older than that of every
  healthy instance before it in the list and at least as old as that of every healthy
  instance after it: the oldest \<^verbatim>\<open>lastOk\<close>, ties going to the earliest inserted.
\<close>

theorem lookup_oldest_healthy:
  "(if \<forall>i\<in>set (instances_of name r t0 st). \<not> healthy i
    then fst (lookup name r t0 st) = None
    else \<exists>pre x post.
           instances_of name r t0 st = pre @ x # post \<and> healthy x
           \<and> fst (lookup name r t0 st) = Some (url x)
           \<and> (\<forall>y\<in>set pre. healthy y \<longrightarrow> lastOk x < lastOk y)
           \<and> (\<forall>y\<in>set post. healthy y \<longrightarrow> lastOk x \<le> lastOk y))"
proof (cases "\<forall>i\<in>set (instances_of name r t0 st). \<not> healthy i")
  case True
  then have "filter healthy (instances_of name r t0 st) = []"
    by (simp add: filter_empty_conv)
  with True show ?thesis by (simp add: lookup_value)
next
  case False
  then have ne: "filter healthy (instances_of name r t0 st) \<noteq> []"
    by (simp add: filter_empty_conv)
  from hd_sort_key_first_min[OF ne, of lastOk] obtain pre x post where
    d: "filter healthy (instances_of name r t0 st) = pre @ x # post"
       "hd (sort_key lastOk (filter healthy (instances_of name r t0 st))) = x"
       "\<forall>y\<in>set pre. lastOk x < lastOk y" "\<forall>y\<in>set post. lastOk x \<le> lastOk y"
    by blast
  from filter_eq_append_Cons[OF d(1)] obtain pre' post' where
    e: "instances_of name r t0 st = pre' @ x # post'" "filter healthy pre' = pre"
       "filter healthy post' = post" "healthy x"
    by blast
  have p1: "\<forall>y\<in>set pre'. healthy y \<longrightarrow> lastOk x < lastOk y"
    using d(3) e(2) by auto
  have p2: "\<forall>y\<in>set post'. healthy y \<longrightarrow> lastOk x \<le> lastOk y"
    using d(4) e(3) by auto
  have v: "fst (lookup name r t0 st) = Some (url x)"
    using ne d(2) by (simp add: lookup_value)
  from e(1) e(4) v p1 p2 have
    "\<exists>pre x post.
           instances_of name r t0 st = pre @ x # post \<and> healthy x
           \<and> fst (lookup name r t0 st) = Some (url x)
           \<and> (\<forall>y\<in>set pre. healthy y \<longrightarrow> lastOk x < lastOk y)
           \<and> (\<forall>y\<in>set post. healthy y \<longrightarrow> lastOk x \<le> lastOk y)"
    by blast
  then show ?thesis by (subst if_not_P[OF False])
qed

theorem lookup_oldest_healthy_witness:
  "fst (lookup '' List-Service'' no_faults 100 sample_store) = Some ''http://c:3002''
   \<and> fst (lookup ''item-service'' no_faults 100 sample_store) = None"
proof -
  have c: "fst (lookup '' List-Service'' no_faults 100 sample_store) = Some ''http://c:3002''"
    by code_simp
  have n: "instances_of ''item-service'' no_faults 100 sample_store = []"
    by code_simp
  from c lookup_oldest_healthy[of "''item-service''" no_faults 100 sample_store]
  show ?thesis by (simp add: n)
qed

section \<open>Registry: health probes\<close>

lemma probe_failure_fields:
  "fails (probe_failure i) = fails i + 1"
  "url (probe_failure i) = url i"
  "lastSeen (probe_failure i) = lastSeen i"
  "healthy (probe_failure i) = (fails i + 1 < 3 \<and> healthy i)"
  by (auto simp add: probe_failure_def Let_def FAIL_OPEN_AFTER_def)

lemma checkInstance_failed:
  "\<not> probe_succeeds p \<Longrightarrow> checkInstance p i = probe_failure i"
  by (simp add: checkInstance_def probe_succeeds_def split: http.splits)

lemma checkInstance_succeeded:
  "probe_succeeds p \<Longrightarrow>
     checkInstance p i = i\<lparr>healthy := True, fails := 0, lastSeen := seen_at p, lastOk := ok_at p\<rparr>"
  by (simp add: checkInstance_def probe_succeeds_def split: http.splits)

lemma url_checkInstance: "url (checkInstance p i) = url i"
  by (cases "probe_succeeds p")
     (simp_all add: checkInstance_failed checkInstance_succeeded probe_failure_fields)



lemma distinct_map_nth_eq:
  "distinct (map f xs) \<Longrightarrow> j < length xs \<Longrightarrow> k < length xs \<Longrightarrow> f (xs ! j) = f (xs ! k)
     \<Longrightarrow> j = k"
  using nth_eq_iff_index_eq[of "map f xs" j k] by simp




text \<open>
  C3. The claim is the criterion the source states for itself: the comment above the test
  in \<^verbatim>\<open>checkInstance\<close> says that a probe is taken as ok when the answer is a JSON with
  \<^verbatim>\<open>{status: 'ok'}\<close>, and every \<^verbatim>\<open>/health\<close> endpoint of the repository sends that
  status. The test written below the comment is
  \<^verbatim>\<open>data && (data.status === 'ok' || data.service)\<close>, and it lets a body through that
  names its service, whatever its status says. Evaluated on an instance with five failures
  behind it and the answer \<^verbatim>\<open>{status: 'down', service: 'list-service'}\<close>, the probe is
  counted as a success: the instance comes out healthy, with \<^verbatim>\<open>fails\<close> at 0 and both
  timestamps refreshed, where the claim has \<^verbatim>\<open>fails\<close> go up to 6.
\<close>

theorem probe_with_service_field_counted_as_success:
  "checkInstance
     \<lparr>response = Responded (JObj [(''status'', JStr ''down''), (''service'', JStr ''list-service'')]),
      seen_at = 500, ok_at = 501\<rparr>
     \<lparr>url = ''http://a:3002'', healthy = False, fails = 5, lastSeen = 10, lastOk = 10, meta = []\<rparr>
   = \<lparr>url = ''http://a:3002'', healthy = True, fails = 0, lastSeen = 500, lastOk = 501, meta = []\<rparr>"
  by (simp add: checkInstance_def body_ok_def)

section \<open>Registry: registration and storage failures\<close>

lemma fst_persist:
  "fst (persist w now st) = (if outputJson_fails w then Threw StorageError else Returned ())"
  by (simp add: persist_def Let_def)

lemma fst_register:
  "fst (register name u mt r t0 now w tp st)
     = (if outputJson_fails w then Threw StorageError else Returned True)"
proof -
  have "fst (case persist w tp s of (Threw e, st4) \<Rightarrow> (Threw e, st4)
                                   | (Returned _, st4) \<Rightarrow> (Returned True, st4))
          = (if outputJson_fails w then Threw StorageError else Returned True)" for s
    by (simp add: persist_def Let_def)
  then show ?thesis by (simp add: register_def Let_def split_def)
qed

text \<open>
  C7 (as stated, refuted). The claim says that a storage failure during registration is
  logged and swallowed, so that \<^verbatim>\<open>register\<close> always completes. Only \<^verbatim>\<open>load\<close> catches
  its failures; the closing \<^verbatim>\<open>await persist()\<close> of \<^verbatim>\<open>register\<close> stands outside any
  \<^verbatim>\<open>try\<close>. With a registry file that cannot be written the call rejects.
\<close>

theorem register_write_failure_counterexample:
  "fst (register ''list-service'' ''http://e:3002'' []
          no_faults 100 101 \<lparr>readJson_fails = False, outputJson_fails = True\<rparr> 102 sample_store)
     = Threw StorageError"
  by (simp add: fst_register)

text \<open>
  C7 (amended). \<^verbatim>\<open>register\<close> fails with an error to the caller in exactly one case: when
  its closing write of the registry file fails, the storage error is propagated. Storage
  failures while reloading the table (an unreadable file, a failed first write of a missing
  file) are swallowed, and in every other case the call returns \<^verbatim>\<open>true\<close>.
\<close>

theorem register_fails_only_on_closing_write:
  "fst (register name u mt r t0 now w tp st)
     = (if outputJson_fails w then Threw StorageError else Returned True)"
  by (rule fst_register)

theorem register_fails_only_on_closing_write_witness:
  "fst (register ''list-service'' ''http://e:3002'' []
          \<lparr>readJson_fails = True, outputJson_fails = True\<rparr> 100 101 no_faults 102 sample_store)
     = Returned True
   \<and> fst (register ''list-service'' ''http://e:3002'' []
          no_faults 100 101 \<lparr>readJson_fails = False, outputJson_fails = True\<rparr> 102 sample_store)
     = Threw StorageError"
  using register_fails_only_on_closing_write
          [of "''list-service''" "''http://e:3002''" "[]"
              "\<lparr>readJson_fails = True, outputJson_fails = True\<rparr>" 100 101 no_faults 102 sample_store]
        register_fails_only_on_closing_write
          [of "''list-service''" "''http://e:3002''" "[]" no_faults 100 101
              "\<lparr>readJson_fails = False, outputJson_fails = True\<rparr>" 102 sample_store]
  by simp

section \<open>Gateway: proxying without a healthy instance\<close>

lemma fst_gateway_lookup:
  "fst (gateway_lookup name r t0 st) =
     (case fst (lookup name r t0 st) of
        None \<Rightarrow> FALLBACKS name
      | Some u \<Rightarrow> if u = [] then FALLBACKS name else Some u)"
  by (simp add: gateway_lookup_def split: prod.splits option.splits)

lemma makeProxy_fallback:
  assumes "fst (lookup name r t0 st) = None" and "FALLBACKS name = Some a"
  shows "fst (makeProxy name r t0 st) = Some a"
  using assms by (simp add: makeProxy_def fst_gateway_lookup)

lemma router_fallback:
  assumes "fst (lookup name r t0 st) = None" and "FALLBACKS name = Some a"
  shows "fst (router name r t0 st) = RouterObject (Some a)"
proof -
  have "fst (router name r t0 st) = RouterObject (fst (gateway_lookup name r t0 st))"
    by (simp add: router_def split: prod.splits)
  with assms show ?thesis by (simp add: fst_gateway_lookup)
qed

text \<open>
  C8 (as stated, refuted). The claim says that a request whose registry lookup finds no
  healthy instance is treated as an upstream failure: counted against the breaker and
  answered as upstream-unavailable, rather than sent to some other address. The gateway's
  \<^verbatim>\<open>lookup\<close> returns \<^verbatim>\<open>url || FALLBACKS[name]\<close>: with no instance of item-service
  registered, \<^verbatim>\<open>makeProxy\<close> and the router hand \<^verbatim>\<open>http://localhost:3003\<close> to the proxy
  and the gateway reports nothing to the breaker. With a proxy whose call throws on the
  routed object, the request ends in a 500 and the breaker has no entry for the service.
\<close>

theorem no_instance_not_counted_counterexample:
  "fst (lookup ''item-service'' no_faults 1000 sample_store) = None
   \<and> fst (makeProxy ''item-service'' no_faults 1000 sample_store) = Some ''http://localhost:3003''
   \<and> fst (router ''item-service'' no_faults 1001 sample_store)
       = RouterObject (Some ''http://localhost:3003'')
   \<and> fst (route ''item-service'' sample_proxy_env sample_gateway) = ServerError
   \<and> gw_breakers (snd (route ''item-service'' sample_proxy_env sample_gateway)) ''item-service''
       = None"
  by code_simp

text \<open>
  C8 (amended). For every proxied request that passes the gate, to a service with an entry
  in \<^verbatim>\<open>FALLBACKS\<close>, whose registry lookup finds no healthy instance: the gateway does not
  itself treat the request as an upstream failure. It resolves the static fallback address
  of the service and hands it to the proxy middleware, as target and as routed target. The
  request is counted against the breaker and answered with the upstream-unavailable error
  (502) only when the middleware reports a proxy error; a response of the upstream is
  counted as a success; when the proxy call throws, the breaker is left as it was. Which of
  these the middleware does with the address is left open.
\<close>

theorem no_healthy_instance_resolves_fallback:
  assumes "fst (canPass (guard_clock env) name (gw_breakers g))"
    and "fst (lookup name (target_io env) (target_clock env) (gw_store g)) = None"
    and "fst (lookup name (router_io env) (router_clock env)
                (snd (makeProxy name (target_io env) (target_clock env) (gw_store g)))) = None"
    and "FALLBACKS name = Some a"
  shows "fst (makeProxy name (target_io env) (target_clock env) (gw_store g)) = Some a
       \<and> fst (router name (router_io env) (router_clock env)
                (snd (makeProxy name (target_io env) (target_clock env) (gw_store g))))
           = RouterObject (Some a)
       \<and> fst (route name env g)
           = (case proxy env (Some a) (RouterObject (Some a)) of
                Answered c \<Rightarrow> Passed c | Errored \<Rightarrow> BadGateway | Thrown \<Rightarrow> ServerError)
       \<and> gw_breakers (snd (route name env g))
           = (case proxy env (Some a) (RouterObject (Some a)) of
                Answered c \<Rightarrow> reportSuccess name (snd (canPass (guard_clock env) name (gw_breakers g)))
              | Errored \<Rightarrow> reportFailure (failure_clock env) name
                             (snd (canPass (guard_clock env) name (gw_breakers g)))
              | Thrown \<Rightarrow> snd (canPass (guard_clock env) name (gw_breakers g)))"
proof -
  obtain bs where c: "canPass (guard_clock env) name (gw_breakers g) = (True, bs)"
    using assms(1) by (cases "canPass (guard_clock env) name (gw_breakers g)") auto
  have t: "fst (makeProxy name (target_io env) (target_clock env) (gw_store g)) = Some a"
    using assms(2) assms(4) by (rule makeProxy_fallback)
  then obtain s1 where l1:
    "makeProxy name (target_io env) (target_clock env) (gw_store g) = (Some a, s1)"
    by (cases "makeProxy name (target_io env) (target_clock env) (gw_store g)") auto
  have r: "fst (router name (router_io env) (router_clock env) s1) = RouterObject (Some a)"
    using assms(3) assms(4) l1 by (simp add: router_fallback)
  then obtain s2 where l2:
    "router name (router_io env) (router_clock env) s1 = (RouterObject (Some a), s2)"
    by (cases "router name (router_io env) (router_clock env) s1") auto
  have "fst (route name env g)
           = (case proxy env (Some a) (RouterObject (Some a)) of
                Answered c \<Rightarrow> Passed c | Errored \<Rightarrow> BadGateway | Thrown \<Rightarrow> ServerError)"
    by (cases "proxy env (Some a) (RouterObject (Some a))") (simp_all add: route_def c l1 l2)
  moreover have "gw_breakers (snd (route name env g))
           = (case proxy env (Some a) (RouterObject (Some a)) of
                Answered c \<Rightarrow> reportSuccess name (snd (canPass (guard_clock env) name (gw_breakers g)))
              | Errored \<Rightarrow> reportFailure (failure_clock env) name
                             (snd (canPass (guard_clock env) name (gw_breakers g)))
              | Thrown \<Rightarrow> snd (canPass (guard_clock env) name (gw_breakers g)))"
    by (cases "proxy env (Some a) (RouterObject (Some a))") (simp_all add: route_def c l1 l2)
  moreover have "fst (router name (router_io env) (router_clock env)
                (snd (makeProxy name (target_io env) (target_clock env) (gw_store g))))
           = RouterObject (Some a)"
    using r l1 by simp
  ultimately show ?thesis using t by blast
qed

theorem no_healthy_instance_resolves_fallback_witness:
  "fst (makeProxy ''item-service'' no_faults 1000 sample_store) = Some ''http://localhost:3003''
   \<and> fst (route ''item-service'' sample_proxy_env sample_gateway) = ServerError
   \<and> gw_breakers (snd (route ''item-service'' sample_proxy_env sample_gateway))
       = gw_breakers sample_gateway"
proof -
  have 1: "fst (canPass (guard_clock sample_proxy_env) ''item-service'' (gw_breakers sample_gateway))"
    by (simp add: canPass_def sample_gateway_def)
  have 2: "fst (lookup ''item-service'' (target_io sample_proxy_env) (target_clock sample_proxy_env)
                (gw_store sample_gateway)) = None"
    by code_simp
  have 3: "fst (lookup ''item-service'' (router_io sample_proxy_env) (router_clock sample_proxy_env)
                (snd (makeProxy ''item-service'' (target_io sample_proxy_env)
                        (target_clock sample_proxy_env) (gw_store sample_gateway)))) = None"
    by code_simp
  have 4: "FALLBACKS ''item-service'' = Some ''http://localhost:3003''"
    by (simp add: FALLBACKS_def)
  have p: "proxy sample_proxy_env (Some ''http://localhost:3003'')
             (RouterObject (Some ''http://localhost:3003'')) = Thrown"
    by (simp add: sample_proxy_env_def)
  have e: "target_io sample_proxy_env = no_faults" "target_clock sample_proxy_env = 1000"
    "gw_store sample_gateway = sample_store"
    by (simp_all add: sample_proxy_env_def sample_gateway_def)
  have b: "snd (canPass (guard_clock sample_proxy_env) ''item-service'' (gw_breakers sample_gateway))
             = gw_breakers sample_gateway"
    by (simp add: canPass_def sample_gateway_def)
  from no_healthy_instance_resolves_fallback[OF 1 2 3 4] p e b
  show ?thesis by simp
qed

section \<open>Registry: eviction of stale instances\<close>

lemma list_at_setList:
  "list_at (setList n l st) k = (if k = key n then Some l else list_at st k)"
  by (simp add: setList_def update_conv')

lemma probe_step_undisturbed:
  assumes "during_probe env n k = Nothing" and "shared s"
  shows "probe_step env n k s =
           \<lparr>held = (held s)[k := checkInstance (probe_of env n k) (held s ! k)],
            shared = True,
            current = setList n ((held s)[k := checkInstance (probe_of env n k) (held s ! k)])
                        (current s)\<rparr>"
  using assms by (simp add: probe_step_def Let_def interleave_def replaces_memory_def)

lemma probes_undisturbed:
  assumes "\<forall>k. during_probe env n k = Nothing" and "m \<le> length l0"
  shows "shared (fold (probe_step env n) [0..<m] \<lparr>held = l0, shared = True, current = st1\<rparr>)
       \<and> length (held (fold (probe_step env n) [0..<m]
                          \<lparr>held = l0, shared = True, current = st1\<rparr>)) = length l0
       \<and> (\<forall>j<length l0.
             held (fold (probe_step env n) [0..<m] \<lparr>held = l0, shared = True, current = st1\<rparr>) ! j
               = (if j < m then checkInstance (probe_of env n j) (l0 ! j) else l0 ! j))
       \<and> (\<forall>k. k \<noteq> key n \<longrightarrow>
             list_at (current (fold (probe_step env n) [0..<m]
                                 \<lparr>held = l0, shared = True, current = st1\<rparr>)) k
               = list_at st1 k)"
  using assms(2)
proof (induction m)
  case 0
  then show ?case by simp
next
  case (Suc m)
  let ?s = "fold (probe_step env n) [0..<m] \<lparr>held = l0, shared = True, current = st1\<rparr>"
  from Suc have ih: "shared ?s" "length (held ?s) = length l0"
    "\<forall>j<length l0. held ?s ! j = (if j < m then checkInstance (probe_of env n j) (l0 ! j) else l0 ! j)"
    "\<forall>k. k \<noteq> key n \<longrightarrow> list_at (current ?s) k = list_at st1 k"
    by simp_all
  have m: "m < length l0" using Suc.prems by simp
  have d: "during_probe env n m = Nothing" using assms(1) by simp
  have f: "fold (probe_step env n) [0..<Suc m] \<lparr>held = l0, shared = True, current = st1\<rparr>
             = probe_step env n m ?s"
    by simp
  have hm: "held ?s ! m = l0 ! m" using ih(3) m by simp
  show ?case
    unfolding f probe_step_undisturbed[OF d ih(1)]
    using ih(2) ih(3) ih(4) m hm
    by (auto simp add: list_at_setList nth_list_update less_Suc_eq)
qed

lemma held_after_probes:
  assumes "\<forall>k. during_probe env n k = Nothing"
  shows "held (fold (probe_step env n) [0..<length l0]
                 \<lparr>held = l0, shared = True, current = st1\<rparr>)
           = map (\<lambda>(k, i). checkInstance (probe_of env n k) i) (enumerate 0 l0)"
proof (rule nth_equalityI)
  let ?s = "fold (probe_step env n) [0..<length l0] \<lparr>held = l0, shared = True, current = st1\<rparr>"
  from probes_undisturbed[OF assms, of "length l0" l0 st1]
  have l: "length (held ?s) = length l0"
    and e: "\<forall>j<length l0. held ?s ! j = checkInstance (probe_of env n j) (l0 ! j)"
    by simp_all
  show "length (held ?s)
          = length (map (\<lambda>(k, i). checkInstance (probe_of env n k) i) (enumerate 0 l0))"
    using l by simp
  show "held ?s ! j = map (\<lambda>(k, i). checkInstance (probe_of env n k) i) (enumerate 0 l0) ! j"
    if "j < length (held ?s)" for j
    using that l e by (simp add: nth_enumerate_eq)
qed

lemma list_at_check_service:
  assumes "\<forall>k. during_probe env n k = Nothing"
  shows "list_at (check_service env n st) k =
     (if key n = k
      then Some (cleanupAged (cleanup_clock env n)
                   (map (\<lambda>(j, i). checkInstance (probe_of env n j) i)
                      (enumerate 0 (case list_at st k of None \<Rightarrow> [] | Some l \<Rightarrow> l))))
      else list_at st k)"
proof -
  obtain l0 st1 where g: "getList n st = (l0, st1)" by (cases "getList n st") auto
  let ?s = "fold (probe_step env n) [0..<length l0] \<lparr>held = l0, shared = True, current = st1\<rparr>"
  have c: "check_service env n st = setList n (cleanupAged (cleanup_clock env n) (held ?s)) (current ?s)"
    by (simp add: check_service_def g Let_def)
  have l0: "l0 = (case list_at st (key n) of None \<Rightarrow> [] | Some l \<Rightarrow> l)"
    using g by (auto simp add: getList_def Let_def split: option.splits)
  have o: "list_at st1 k = list_at st k" if "k \<noteq> key n"
    using g that by (auto simp add: getList_def Let_def update_conv' split: option.splits)
  have p: "list_at (current ?s) k = list_at st1 k" if "k \<noteq> key n"
    using probes_undisturbed[OF assms, of "length l0" l0 st1] that by simp
  show ?thesis
  proof (cases "key n = k")
    case True
    then show ?thesis
      by (simp add: c list_at_setList held_after_probes[OF assms] l0)
  next
    case False
    then have "k \<noteq> key n" by auto
    with False show ?thesis by (simp add: c list_at_setList o p)
  qed
qed

lemma probed_elements:
  assumes "y \<in> set (cleanupAged c (map (\<lambda>(j, i). checkInstance (p j) i) (enumerate 0 xs)))"
  shows "\<exists>i<length xs. y = checkInstance (p i) (xs ! i)
           \<and> c - lastSeen y \<le> INSTANCE_TTL_MS"
proof -
  from assms have m: "y \<in> set (map (\<lambda>(j, i). checkInstance (p j) i) (enumerate 0 xs))"
    and a: "c - lastSeen y \<le> INSTANCE_TTL_MS"
    by (simp_all add: cleanupAged_def num_or_zero_id)
  from m obtain j i where "(j, i) \<in> set (enumerate 0 xs)" "y = checkInstance (p j) i"
    by auto
  then have "j < length xs" "i = xs ! j" "y = checkInstance (p j) (xs ! j)"
    by (auto simp add: in_set_enumerate_eq)
  with a show ?thesis by blast
qed

lemma probed_urls:
  "url ` set (cleanupAged c (map (\<lambda>(j, i). checkInstance (p j) i) (enumerate 0 xs)))
     \<subseteq> url ` set xs"
proof
  fix u
  assume "u \<in> url ` set (cleanupAged c (map (\<lambda>(j, i). checkInstance (p j) i) (enumerate 0 xs)))"
  then obtain y where
    y: "y \<in> set (cleanupAged c (map (\<lambda>(j, i). checkInstance (p j) i) (enumerate 0 xs)))"
    and u: "u = url y" by blast
  from probed_elements[OF y] obtain i where "i < length xs" "y = checkInstance (p i) (xs ! i)"
    by blast
  with u have "u = url (xs ! i)" "xs ! i \<in> set xs"
    by (simp_all add: url_checkInstance)
  then show "u \<in> url ` set xs" by blast
qed

lemma absent_check_service:
  assumes "\<forall>k. during_probe env n k = Nothing" and "absent u k st"
  shows "absent u k (check_service env n st)"
proof -
  from assms(2) obtain ys where ys: "list_at st k = Some ys" "u \<notin> url ` set ys"
    by (auto simp add: absent_def split: option.splits)
  show ?thesis
  proof (cases "key n = k")
    case False
    with ys show ?thesis by (simp add: absent_def list_at_check_service[OF assms(1)])
  next
    case True
    have "u \<notin> url ` set (cleanupAged (cleanup_clock env n)
             (map (\<lambda>(j, i). checkInstance (probe_of env n j) i) (enumerate 0 ys)))"
      using probed_urls[of "cleanup_clock env n" "probe_of env n" ys] ys(2) by blast
    with True ys(1) show ?thesis by (simp add: absent_def list_at_check_service[OF assms(1)])
  qed
qed

lemma absent_fold:
  "\<forall>n k. during_probe env n k = Nothing \<Longrightarrow> absent u k st
     \<Longrightarrow> absent u k (fold (check_service env) ns st)"
  by (induction ns arbitrary: st) (simp_all add: absent_check_service)

lemma untouched_fold:
  "\<forall>n k. during_probe env n k = Nothing \<Longrightarrow> \<forall>n\<in>set ns. key n \<noteq> k
     \<Longrightarrow> list_at (fold (check_service env) ns st) k = list_at st k"
  by (induction ns arbitrary: st) (simp_all add: list_at_check_service)

lemma evicted_by_check_service:
  assumes "\<forall>k. during_probe env k0 k = Nothing"
    and "list_at st k0 = Some xs" and "key k0 = k0"
    and "j < length xs" and "distinct (map url xs)"
    and "cleanup_clock env k0 - lastSeen (checkInstance (probe_of env k0 j) (xs ! j))
           > INSTANCE_TTL_MS"
  shows "absent (url (xs ! j)) k0 (check_service env k0 st)"
proof -
  let ?ys = "cleanupAged (cleanup_clock env k0)
               (map (\<lambda>(j, i). checkInstance (probe_of env k0 j) i) (enumerate 0 xs))"
  have l: "list_at (check_service env k0 st) k0 = Some ?ys"
    using assms(2) assms(3) by (simp add: list_at_check_service[OF assms(1)])
  have "url (xs ! j) \<notin> url ` set ?ys"
  proof
    assume "url (xs ! j) \<in> url ` set ?ys"
    then obtain y where y: "y \<in> set ?ys" "url y = url (xs ! j)" by auto
    from probed_elements[OF y(1)] obtain i where
      i: "i < length xs" "y = checkInstance (probe_of env k0 i) (xs ! i)"
         "cleanup_clock env k0 - lastSeen y \<le> INSTANCE_TTL_MS"
      by blast
    from i(2) y(2) have "url (xs ! i) = url (xs ! j)" by (simp add: url_checkInstance)
    with assms(5) i(1) assms(4) have "i = j" by (rule distinct_map_nth_eq)
    with i(2) i(3) assms(6) show False by simp
  qed
  with l show ?thesis by (simp add: absent_def)
qed

lemma evicted_by_fold:
  assumes "\<forall>n k. during_probe env n k = Nothing"
    and "\<forall>n\<in>set (map fst (services (memory st))). key n = n"
    and "list_at st k0 = Some xs"
    and "j < length xs" and "distinct (map url xs)"
    and "cleanup_clock env k0 - lastSeen (checkInstance (probe_of env k0 j) (xs ! j))
           > INSTANCE_TTL_MS"
  shows "absent (url (xs ! j)) k0
           (fold (check_service env) (map fst (services (memory st))) st)"
proof -
  let ?names = "map fst (services (memory st))"
  from assms(3) have "k0 \<in> set ?names"
    by (metis map_of_SomeD image_eqI fst_conv set_map)
  then obtain pre post where sp: "?names = pre @ k0 # post" "k0 \<notin> set pre"
    by (metis split_list_first)
  have kk: "key k0 = k0" using assms(2) \<open>k0 \<in> set ?names\<close> by blast
  have q: "\<forall>k. during_probe env k0 k = Nothing" using assms(1) by simp
  have "\<forall>n\<in>set pre. key n \<noteq> k0"
  proof
    fix n assume n: "n \<in> set pre"
    then have "n \<in> set ?names" using sp(1) by simp
    with assms(2) have "key n = n" by blast
    with n sp(2) show "key n \<noteq> k0" by auto
  qed
  then have "list_at (fold (check_service env) pre st) k0 = Some xs"
    using assms(1) assms(3) by (simp add: untouched_fold)
  with q have "absent (url (xs ! j)) k0 (check_service env k0 (fold (check_service env) pre st))"
    using kk assms(4) assms(5) assms(6) by (rule evicted_by_check_service)
  with assms(1) have "absent (url (xs ! j)) k0
      (fold (check_service env) post (check_service env k0 (fold (check_service env) pre st)))"
    by (rule absent_fold)
  then show ?thesis by (simp add: sp(1))
qed

lemma services_persist:
  "services (memory (snd (persist w now st))) = services (memory st)"
  by (simp add: persist_def Let_def)

lemma dump_after_persist:
  assumes "\<not> outputJson_fails w"
  shows "services (fst (dump r t0 (snd (persist w now st)))) = services (memory st)"
  using assms by (simp add: dump_def load_def persist_def Let_def)

text \<open>
  C5 (as stated, refuted). The claim has every instance that is stale when a cycle runs
  removed by that cycle and absent from what \<^verbatim>\<open>dump\<close> returns. Two runs in which every
  probe times out and every instance was last seen more than the TTL before the clean-up:

  \<^item> With item-service and list-service in the table, the cycle cleans the list of
    item-service and then waits for the probe of list-service. A request of the same
    process calls \<^verbatim>\<open>lookup\<close> meanwhile: its \<^verbatim>\<open>load\<close> puts the table of the file, with
    the stale instance, back into \<^verbatim>\<open>memory\<close>. The cycle writes that table out, and
    \<^verbatim>\<open>dump\<close> returns the instance of item-service.
  \<^item> With nothing running in between but a closing write that fails, the clean-up stays in
    \<^verbatim>\<open>memory\<close>; \<^verbatim>\<open>dump\<close> reloads the file and returns all four instances.
\<close>

theorem stale_instance_kept_counterexample:
  "map_option (map lastSeen) (list_at (load no_faults 1000000 two_service_store) ''item-service'')
     = Some [10]
   \<and> 1000050 - 10 > INSTANCE_TTL_MS
   \<and> \<not> probe_succeeds (timeout_probe 1000040)
   \<and> map_option (map url)
       (map_of (services (fst (dump no_faults 1000100
          (health_cycle
             (sample_cycle_env (\<lambda>k. timeout_probe 1000040) lookup_during_list_probe False)
             two_service_store))))
          ''item-service'')
     = Some [''http://x:3003'']
   \<and> map_option (map lastSeen) (list_at (load no_faults 1000000 sample_store) ''list-service'')
     = Some [10, 70, 40, 40]
   \<and> 1000050 - 70 > INSTANCE_TTL_MS
   \<and> map_option (map url)
       (map_of (services (fst (dump no_faults 1000100
          (health_cycle
             (sample_cycle_env (\<lambda>k. timeout_probe 1000040) (\<lambda>n k. Nothing) True)
             sample_store))))
          ''list-service'')
     = Some [''http://a:3002'', ''http://b:3002'', ''http://c:3002'', ''http://d:3002'']"
  by code_simp

text \<open>
  C5 (amended). Take a health-check cycle during whose probes no other registry operation
  of the process runs, over a table whose service keys are normalised and whose URLs are
  unique within a list (as \<^verbatim>\<open>register\<close> writes them). For every instance whose
  \<^verbatim>\<open>lastSeen\<close>, as its probe in this cycle leaves it, is older than the 5-minute TTL when
  the cycle cleans its service's list, the cycle removes the instance from the list held
  in memory, whatever its \<^verbatim>\<open>healthy\<close> flag; and when the cycle's closing write of the
  registry file succeeds, the instance is absent from the table that \<^verbatim>\<open>dump\<close> returns.
\<close>

theorem stale_instance_evicted:
  assumes "\<forall>n k. during_probe env n k = Nothing"
    and "\<forall>n\<in>set (map fst (services (memory (load (load_io env) (load_clock env) st)))).
             key n = n"
    and "list_at (load (load_io env) (load_clock env) st) k = Some xs"
    and "j < length xs" and "distinct (map url xs)"
    and "cleanup_clock env k - lastSeen (checkInstance (probe_of env k j) (xs ! j)) > 5 * 60000"
  shows "(\<exists>ys. list_at (health_cycle env st) k = Some ys \<and> url (xs ! j) \<notin> url ` set ys)
       \<and> (\<not> outputJson_fails (persist_io env) \<longrightarrow>
            (\<exists>ys. map_of (services (fst (dump r t0 (health_cycle env st)))) k = Some ys
                  \<and> url (xs ! j) \<notin> url ` set ys))"
proof -
  let ?st1 = "load (load_io env) (load_clock env) st"
  let ?st2 = "fold (check_service env) (map fst (services (memory ?st1))) ?st1"
  have c: "health_cycle env st = snd (persist (persist_io env) (persist_clock env) ?st2)"
    by (simp add: health_cycle_def Let_def)
  have "cleanup_clock env k - lastSeen (checkInstance (probe_of env k j) (xs ! j))
          > INSTANCE_TTL_MS"
    using assms(6) by (simp add: INSTANCE_TTL_MS_def)
  with assms(1-5) have "absent (url (xs ! j)) k ?st2"
    by (rule evicted_by_fold)
  then have a: "\<exists>ys. list_at ?st2 k = Some ys \<and> url (xs ! j) \<notin> url ` set ys"
    by (auto simp add: absent_def split: option.splits)
  have m: "\<exists>ys. list_at (health_cycle env st) k = Some ys \<and> url (xs ! j) \<notin> url ` set ys"
    using a by (simp add: c services_persist)
  have d: "\<exists>ys. map_of (services (fst (dump r t0 (health_cycle env st)))) k = Some ys
                  \<and> url (xs ! j) \<notin> url ` set ys"
    if "\<not> outputJson_fails (persist_io env)"
    using a by (simp add: c dump_after_persist[OF that])
  from m d show ?thesis by blast
qed

theorem stale_instance_evicted_witness:
  "map_option (map url)
     (map_of (services (fst (dump no_faults 1000100
        (health_cycle
           (sample_cycle_env (\<lambda>k. if k = 1 then timeout_probe 1000040 else ok_probe 1000040)
              (\<lambda>n k. Nothing) False)
           sample_store))))
        ''list-service'')
     = Some [''http://a:3002'', ''http://c:3002'', ''http://d:3002'']"
proof -
  let ?env = "sample_cycle_env (\<lambda>k. if k = 1 then timeout_probe 1000040 else ok_probe 1000040)
                (\<lambda>n k. Nothing) False"
  let ?xs = "the (list_at (load (load_io ?env) (load_clock ?env) sample_store) ''list-service'')"
  have 0: "\<forall>n k. during_probe ?env n k = Nothing"
    by (simp add: sample_cycle_env_def)
  have 1: "\<forall>n\<in>set (map fst (services (memory (load (load_io ?env) (load_clock ?env) sample_store)))).
             key n = n"
    by code_simp
  have 2: "list_at (load (load_io ?env) (load_clock ?env) sample_store) ''list-service'' = Some ?xs"
    by code_simp
  have 3: "1 < length ?xs" by code_simp
  have 4: "distinct (map url ?xs)" by code_simp
  have 5: "cleanup_clock ?env ''list-service''
             - lastSeen (checkInstance (probe_of ?env ''list-service'' 1) (?xs ! 1)) > 5 * 60000"
    by code_simp
  have e: "map_option (map url)
     (map_of (services (fst (dump no_faults 1000100 (health_cycle ?env sample_store))))
        ''list-service'')
     = Some [''http://a:3002'', ''http://c:3002'', ''http://d:3002'']"
    by code_simp
  from stale_instance_evicted[OF 0 1 2 3 4 5, of no_faults 1000100] e show ?thesis by simp
qed

section \<open>Gateway: the dashboard's required and optional calls\<close>




section \<open>Gateway: search without a token\<close>

text \<open>
  C10. For every search request with a non-empty query and no bearer credential, the
  handler does not answer \<^verbatim>\<open>{ items, lists: [] }\<close>: the value settled for the lists branch
  is the literal \<^verbatim>\<open>{status: 'fulfilled', value: {data: []}}\<close>, which has no \<^verbatim>\<open>data\<close>
  property of its own, so that \<^verbatim>\<open>lists\<close> is \<^verbatim>\<open>undefined\<close> and the call of
  \<^verbatim>\<open>filter\<close> on it throws a TypeError.
\<close>

theorem search_without_token_throws:
  assumes "trim (case qraw of None \<Rightarrow> [] | Some s \<Rightarrow> s) \<noteq> []"
    and "\<not> present (extractBearer auth)"
  shows "property ''data'' no_token_value = None
       \<and> fst (search qraw auth env st) = Threw TypeError"
proof -
  have d: "property ''data'' no_token_value = None"
    by (simp add: no_token_value_def)
  have "fst (search qraw auth env st) = Threw TypeError"
    using assms
    by (simp add: search_def Let_def split_def allSettled1_def d js_filter_def)
  with d show ?thesis by simp
qed

theorem search_without_token_throws_witness:
  "fst (search (Some '' milk '') None sample_search_env sample_store) = Threw TypeError
   \<and> fst (search (Some ''milk'') (Some ''Basic abc'') sample_search_env sample_store)
       = Threw TypeError"
proof -
  have 1: "trim (case Some '' milk '' of None \<Rightarrow> [] | Some s \<Rightarrow> s) \<noteq> []"
    by (simp add: trim_def is_space_def)
  have 2: "\<not> present (extractBearer None)"
    by (simp add: extractBearer_def)
  have 3: "trim (case Some ''milk'' of None \<Rightarrow> [] | Some s \<Rightarrow> s) \<noteq> []"
    by (simp add: trim_def is_space_def)
  have 4: "\<not> present (extractBearer (Some ''Basic abc''))"
    by (simp add: extractBearer_def)
  from search_without_token_throws[OF 1 2, of sample_search_env sample_store]
       search_without_token_throws[OF 3 4, of sample_search_env sample_store]
  show ?thesis by simp
qed

lemma search_with_token_sample:
  "fst (search (Some ''milk'') (Some ''Bearer tok'') sample_search_env sample_store)
     = Returned \<lparr>found_items = Some (JArr [JObj [(''name'', JStr ''Milk'')]]),
                 found_lists = [JObj [(''name'', JStr ''Milk run'')]]\<rparr>"
  by code_simp

end
